theory Spec2Isabelle
  imports Main "HOL-Library.Sublist"
begin

section \<open>Strings as the validator reads them\<close>

text \<open>
  A JavaScript string is modelled as a \<^typ>\<open>string\<close> of ASCII characters. The character
  classes below are those of the regular expressions in \<^verbatim>\<open>v2/src/validators.ts\<close>,
  restricted to ASCII: \<^verbatim>\<open>\s\<close> is tab, line feed, vertical tab, form feed, carriage
  return and space; the dot of \<^verbatim>\<open>/--.*$/gm\<close> stops at line feed and carriage return.
  Characters beyond ASCII are left alone by every function here.
\<close>

definition is_space :: "char \<Rightarrow> bool" where
  "is_space c = (c = CHR 0x09 \<or> c = CHR 0x0A \<or> c = CHR 0x0B \<or> c = CHR 0x0C
                 \<or> c = CHR 0x0D \<or> c = CHR 0x20)"

definition is_line_terminator :: "char \<Rightarrow> bool" where
  "is_line_terminator c = (c = CHR 0x0A \<or> c = CHR 0x0D)"

definition toUpperCase_char :: "char \<Rightarrow> char" where
  "toUpperCase_char c =
     (let n = (of_char c :: nat) in if 97 \<le> n \<and> n \<le> 122 then char_of (n - 32) else c)"

definition toUpperCase :: "string \<Rightarrow> string" where
  "toUpperCase s = map toUpperCase_char s"

text \<open>\<^verbatim>\<open>s.startsWith(c)\<close> for a single character.\<close>

fun starts_with_char :: "char \<Rightarrow> string \<Rightarrow> bool" where
  "starts_with_char c [] = False"
| "starts_with_char c (d # ds) = (c = d)"

text \<open>\<^verbatim>\<open>s.endsWith(";")\<close> and \<^verbatim>\<open>s.includes(";")\<close>.\<close>

definition endsWith_char :: "string \<Rightarrow> char \<Rightarrow> bool" where
  "endsWith_char s c = (case rev s of [] \<Rightarrow> False | d # _ \<Rightarrow> d = c)"

definition includes_char :: "string \<Rightarrow> char \<Rightarrow> bool" where
  "includes_char s c = (c \<in> set s)"

section \<open>Normalisation of a query\<close>

text \<open>
  \<^verbatim>\<open>.replace(/--.*$/gm, "")\<close>: from each \<^verbatim>\<open>--\<close> up to, and not including, the next
  line terminator. The flag says whether the scan is inside such a comment.
\<close>

fun strip_line_comments :: "bool \<Rightarrow> string \<Rightarrow> string" where
  "strip_line_comments in_comment [] = []"
| "strip_line_comments True (c # cs) =
     (if is_line_terminator c then c # strip_line_comments False cs
      else strip_line_comments True cs)"
| "strip_line_comments False (c # cs) =
     (if c = CHR ''-'' \<and> starts_with_char CHR ''-'' cs then strip_line_comments True cs
      else c # strip_line_comments False cs)"

text \<open>
  \<^verbatim>\<open>.replace(/\/\*[\s\S]*?\*\//g, "")\<close>: a block comment runs from \<^verbatim>\<open>/*\<close> to the
  first \<^verbatim>\<open>*/\<close> that starts after it; \<open>find_close\<close> returns the text behind that
  \<^verbatim>\<open>*/\<close>. Where no \<^verbatim>\<open>*/\<close> follows, the expression does not match at this position
  and the scan goes on with the next character.
\<close>

fun find_close :: "string \<Rightarrow> string option" where
  "find_close [] = None"
| "find_close (c # cs) =
     (if c = CHR ''*'' \<and> starts_with_char CHR ''/'' cs then Some (tl cs) else find_close cs)"

lemma find_close_shorter: "find_close (tl s) = Some r \<Longrightarrow> length r < Suc (length s)"
proof -
  have "find_close t = Some r \<Longrightarrow> length r < length t" for t
    by (induction t) (auto split: if_splits)
  then show "find_close (tl s) = Some r \<Longrightarrow> length r < Suc (length s)"
    by fastforce
qed

function strip_block_comments :: "string \<Rightarrow> string" where
  "strip_block_comments [] = []"
| "strip_block_comments (c # cs) =
     (if c = CHR ''/'' \<and> starts_with_char CHR ''*'' cs then
        (case find_close (tl cs) of
           Some r \<Rightarrow> strip_block_comments r
         | None \<Rightarrow> c # strip_block_comments cs)
      else c # strip_block_comments cs)"
  by pat_completeness auto
termination
  by (relation "measure length") (auto dest!: find_close_shorter)

text \<open>
  \<^verbatim>\<open>.replace(/\s+/g, " ")\<close>: every maximal run of whitespace becomes one space. The flag
  says whether the previous character belonged to a run already replaced.
\<close>

fun collapse_whitespace :: "bool \<Rightarrow> string \<Rightarrow> string" where
  "collapse_whitespace in_run [] = []"
| "collapse_whitespace in_run (c # cs) =
     (if is_space c then
        (if in_run then collapse_whitespace True cs
         else CHR '' '' # collapse_whitespace True cs)
      else c # collapse_whitespace False cs)"

definition trim :: "string \<Rightarrow> string" where
  "trim s = rev (dropWhile is_space (rev (dropWhile is_space s)))"

definition normalize :: "string \<Rightarrow> string" where
  "normalize query =
     toUpperCase (trim (collapse_whitespace False
       (strip_block_comments (strip_line_comments False query))))"

section \<open>The validator of v2/src/validators.ts\<close>

definition ALLOWED_COMMANDS :: "string list" where
  "ALLOWED_COMMANDS =
     [''SELECT'', ''SHOW'', ''DESCRIBE'', ''DESC'', ''EXPLAIN'', ''INSERT'', ''UPDATE'', ''DELETE'']"

definition DISALLOWED_COMMANDS :: "string list" where
  "DISALLOWED_COMMANDS =
     [''DROP'', ''CREATE'', ''ALTER'', ''TRUNCATE'', ''RENAME'', ''REPLACE'', ''GRANT'',
      ''REVOKE'', ''LOCK'', ''UNLOCK'', ''CALL'', ''EXEC'', ''EXECUTE'', ''SET'', ''START'',
      ''BEGIN'', ''COMMIT'', ''ROLLBACK'']"

text \<open>
  The three flags read from the environment: each is the outcome of the comparison
  \<^verbatim>\<open>process.env.MARIADB_ALLOW_... === "true"\<close>.
\<close>

record permissions =
  ALLOW_INSERT :: bool
  ALLOW_UPDATE :: bool
  ALLOW_DELETE :: bool

text \<open>What may follow a command for \<^verbatim>\<open>(\s|$)\<close> to match: whitespace or the end.\<close>

fun space_or_end :: "string \<Rightarrow> bool" where
  "space_or_end [] = True"
| "space_or_end (d # ds) = is_space d"

text \<open>
  \<^verbatim>\<open>new RegExp(`(^|\s)${cmd}(\s|$)`).test(s)\<close>, for a \<open>cmd\<close> of letters. The flag says
  whether \<^verbatim>\<open>(^|\s)\<close> can match just before the current position: at the start of
  the text, or behind a whitespace character.
\<close>

fun regex_scan :: "string \<Rightarrow> bool \<Rightarrow> string \<Rightarrow> bool" where
  "regex_scan cmd at_boundary [] = (at_boundary \<and> cmd = [])"
| "regex_scan cmd at_boundary (c # cs) =
     ((at_boundary \<and> prefix cmd (c # cs) \<and> space_or_end (drop (length cmd) (c # cs)))
      \<or> regex_scan cmd (is_space c) cs)"

definition regex_test :: "string \<Rightarrow> string \<Rightarrow> bool" where
  "regex_test cmd s = regex_scan cmd True s"

definition startsWithAllowed :: "string \<Rightarrow> bool" where
  "startsWithAllowed normalizedQuery =
     list_ex (\<lambda>cmd. prefix (cmd @ '' '') normalizedQuery \<or> normalizedQuery = cmd)
       ALLOWED_COMMANDS"

text \<open>
  The callback of \<^verbatim>\<open>DISALLOWED_COMMANDS.some\<close>, with its three early returns as the
  source has them.
\<close>

definition disallowed_hit :: "permissions \<Rightarrow> string \<Rightarrow> string \<Rightarrow> bool" where
  "disallowed_hit env normalizedQuery cmd =
     (if cmd = ''INSERT'' \<and> \<not> ALLOW_INSERT env then False
      else if cmd = ''UPDATE'' \<and> \<not> ALLOW_UPDATE env then False
      else if cmd = ''DELETE'' \<and> \<not> ALLOW_DELETE env then False
      else regex_test cmd normalizedQuery)"

definition containsDisallowed :: "permissions \<Rightarrow> string \<Rightarrow> bool" where
  "containsDisallowed env normalizedQuery =
     list_ex (disallowed_hit env normalizedQuery) DISALLOWED_COMMANDS"

definition hasMultipleStatements :: "string \<Rightarrow> bool" where
  "hasMultipleStatements normalizedQuery =
     (includes_char normalizedQuery CHR '';'' \<and> \<not> endsWith_char normalizedQuery CHR '';'')"

definition isAlloowedQuery :: "permissions \<Rightarrow> string \<Rightarrow> bool" where
  "isAlloowedQuery env query =
     (let normalizedQuery = normalize query in
      startsWithAllowed normalizedQuery
      \<and> \<not> containsDisallowed env normalizedQuery
      \<and> \<not> hasMultipleStatements normalizedQuery)"


text \<open>
  \<^verbatim>\<open>src/validators.ts\<close> holds another function, \<^verbatim>\<open>isAllowedQuery\<close>: it computes the
  normalised text, the flags and the multiple-statement test, and then returns true. The
  executor imports \<^verbatim>\<open>isAlloowedQuery\<close>, the function above.
\<close>

definition isAllowedQuery :: "permissions \<Rightarrow> string \<Rightarrow> bool" where
  "isAllowedQuery env query =
     (let normalizedQuery = normalize query;
          multiple = hasMultipleStatements normalizedQuery
      in True)"

section \<open>The reading of "whole word" by word boundaries\<close>

text \<open>
  The specification asks for a word-boundary match. For comparison with \<open>regex_test\<close>,
  \<open>spec_whole_word\<close> follows that wording: the command occurs with no letter, digit or
  underscore directly before it or directly behind it.
\<close>

definition is_word_char :: "char \<Rightarrow> bool" where
  "is_word_char c =
     (let n = (of_char c :: nat) in
      (48 \<le> n \<and> n \<le> 57) \<or> (65 \<le> n \<and> n \<le> 90) \<or> (97 \<le> n \<and> n \<le> 122) \<or> n = 95)"

fun no_word_char_next :: "string \<Rightarrow> bool" where
  "no_word_char_next [] = True"
| "no_word_char_next (d # ds) = (\<not> is_word_char d)"

fun spec_whole_word_scan :: "string \<Rightarrow> bool \<Rightarrow> string \<Rightarrow> bool" where
  "spec_whole_word_scan cmd at_boundary [] = (at_boundary \<and> cmd = [])"
| "spec_whole_word_scan cmd at_boundary (c # cs) =
     ((at_boundary \<and> prefix cmd (c # cs) \<and> no_word_char_next (drop (length cmd) (c # cs)))
      \<or> spec_whole_word_scan cmd (\<not> is_word_char c) cs)"

definition spec_whole_word :: "string \<Rightarrow> string \<Rightarrow> bool" where
  "spec_whole_word cmd s = spec_whole_word_scan cmd True s"

section \<open>The query executor of src/connection.ts\<close>

text \<open>
  The database driver is outside the repository. It is a parameter of the model: whether
  \<^verbatim>\<open>pool.getConnection()\<close> rejects, whether the statement that switches the database
  rejects, and how \<^verbatim>\<open>connection.query(sql, params)\<close> settles. \<open>Pending\<close> is a query
  that has not settled when the timer of \<^verbatim>\<open>DEFAULT_TIMEOUT\<close> milliseconds fires.

  A settled query resolves to a JavaScript value: undefined, an object, or an array of
  values. The code calls the driver without the option \<^verbatim>\<open>metaAsArray\<close>; called so, the
  mariadb driver resolves to the array of the row objects for a statement that returns
  rows (\<open>row_set\<close>), and to a single result object for any other statement.
\<close>

datatype 'r js_value = Undefined | Object 'r | Array "'r js_value list"

definition row_set :: "'r list \<Rightarrow> 'r js_value" where
  "row_set rs = Array (map Object rs)"

datatype 'r reply = Resolves "'r js_value" | Rejects string | Pending

record 'r driver =
  getConnection_rejects :: "string option"
  use_rejects :: "string \<Rightarrow> string option"
  query_reply :: "string \<Rightarrow> 'r reply"

text \<open>
  What a caller can catch: an \<^verbatim>\<open>Error\<close> with its message (the driver's errors
  included), the \<^verbatim>\<open>McpError\<close> of code \<^verbatim>\<open>InvalidParams\<close> with its message, or the
  \<^verbatim>\<open>TypeError\<close> of a destructuring that finds nothing to iterate.
\<close>

datatype failure = Error string | InvalidParams string | TypeError

text \<open>The calls made on the leased connection, in order.\<close>

datatype connection_call = Query string | Release

text \<open>
  The object \<^verbatim>\<open>{ rows: limitedRows, fields }\<close> that \<^verbatim>\<open>executeQuery\<close> returns; it has
  these two properties and no other.
\<close>

record 'r query_result =
  rows :: "'r js_value"
  field_list :: "'r js_value"

text \<open>
  \<^verbatim>\<open>const [rows, fields] = ...\<close>: the first and the second element of an array, undefined
  where the array is too short; any other value cannot be iterated.
\<close>

fun element :: "'r js_value list \<Rightarrow> nat \<Rightarrow> 'r js_value" where
  "element [] n = Undefined"
| "element (x # xs) 0 = x"
| "element (x # xs) (Suc n) = element xs n"

fun destructure :: "'r js_value \<Rightarrow> ('r js_value \<times> 'r js_value) option" where
  "destructure (Array vs) = Some (element vs 0, element vs 1)"
| "destructure (Object v) = None"
| "destructure Undefined = None"

definition DEFAULT_ROW_LIMIT :: nat where
  "DEFAULT_ROW_LIMIT = 1000"

text \<open>
  JavaScript's \<^verbatim>\<open>if (database)\<close> and \<^verbatim>\<open>if (!table)\<close>: an argument counts as given when
  it is neither undefined nor the empty string.
\<close>

fun given :: "string option \<Rightarrow> string option" where
  "given None = None"
| "given (Some s) = (if s = [] then None else Some s)"

definition use_statement :: "string \<Rightarrow> string" where
  "use_statement database = ''USE `'' @ database @ ''`''"

text \<open>
  \<^verbatim>\<open>Array.isArray(rows) && rows.length > DEFAULT_ROW_LIMIT ? rows.slice(0, DEFAULT_ROW_LIMIT)
  : rows\<close>.
\<close>

fun limitedRows :: "'r js_value \<Rightarrow> 'r js_value" where
  "limitedRows (Array xs) =
     (if length xs > DEFAULT_ROW_LIMIT then Array (take DEFAULT_ROW_LIMIT xs) else Array xs)"
| "limitedRows (Object v) = Object v"
| "limitedRows Undefined = Undefined"

text \<open>
  The body of the \<^verbatim>\<open>try\<close> block behind a successful \<^verbatim>\<open>getConnection\<close>: the value
  returned or the error thrown, and the calls made on the connection so far. The race
  between the query and the timer is lost by a \<open>Pending\<close> query. The \<^verbatim>\<open>params\<close> are
  empty in every call of the repository and are left out.
\<close>

definition try_block ::
  "'r driver \<Rightarrow> permissions \<Rightarrow> string \<Rightarrow> string option
   \<Rightarrow> (failure + 'r query_result) \<times> connection_call list" where
  "try_block db env sql database =
     (let switch = (case given database of
                      Some d \<Rightarrow> [Query (use_statement d)]
                    | None \<Rightarrow> [])
      in case (case given database of
                 Some d \<Rightarrow> use_rejects db (use_statement d)
               | None \<Rightarrow> None) of
           Some e \<Rightarrow> (Inl (Error e), switch)
         | None \<Rightarrow>
             if \<not> isAlloowedQuery env sql then (Inl (Error ''Query not allowed''), switch)
             else
               (case query_reply db sql of
                  Resolves v \<Rightarrow>
                    (case destructure v of
                       None \<Rightarrow> (Inl TypeError, switch @ [Query sql])
                     | Some (rs, fs) \<Rightarrow>
                         (Inr \<lparr>rows = limitedRows rs, field_list = fs\<rparr>, switch @ [Query sql]))
                | Rejects e \<Rightarrow> (Inl (Error e), switch @ [Query sql])
                | Pending \<Rightarrow> (Inl (Error ''Query timeout''), switch @ [Query sql])))"

text \<open>
  \<^verbatim>\<open>executeQuery\<close>: when \<^verbatim>\<open>getConnection\<close> rejects, \<^verbatim>\<open>connection\<close> is still null and
  neither handler releases. Otherwise an error runs the \<^verbatim>\<open>catch\<close> block, which
  releases and rethrows, and then the \<^verbatim>\<open>finally\<close> block, which releases; a normal
  return runs the \<^verbatim>\<open>finally\<close> block only.
\<close>

definition executeQuery ::
  "'r driver \<Rightarrow> permissions \<Rightarrow> string \<Rightarrow> string option
   \<Rightarrow> (failure + 'r query_result) \<times> connection_call list" where
  "executeQuery db env sql database =
     (case getConnection_rejects db of
        Some e \<Rightarrow> (Inl (Error e), [])
      | None \<Rightarrow>
          (case try_block db env sql database of
             (Inl e, calls) \<Rightarrow> (Inl e, calls @ [Release] @ [Release])
           | (Inr r, calls) \<Rightarrow> (Inr r, calls @ [Release])))"

section \<open>The tool handlers of src/index.ts\<close>

text \<open>
  A handler answers with the rows, or with the caught error and \<^verbatim>\<open>isError: true\<close>.
\<close>

datatype 'r response = Content "'r js_value" | IsError failure

definition respond ::
  "(failure + 'r query_result) \<times> connection_call list
   \<Rightarrow> 'r response \<times> connection_call list" where
  "respond outcome =
     (case outcome of
        (Inl e, calls) \<Rightarrow> (IsError e, calls)
      | (Inr r, calls) \<Rightarrow> (Content (rows r), calls))"

definition list_tables ::
  "'r driver \<Rightarrow> permissions \<Rightarrow> string option \<Rightarrow> 'r response \<times> connection_call list" where
  "list_tables db env database = respond (executeQuery db env ''SHOW FULL TABLES'' database)"

definition describe_table ::
  "'r driver \<Rightarrow> permissions \<Rightarrow> string option \<Rightarrow> string option
   \<Rightarrow> 'r response \<times> connection_call list" where
  "describe_table db env database table =
     (case given table of
        None \<Rightarrow> (IsError (InvalidParams ''Table name is required''), [])
      | Some t \<Rightarrow> respond (executeQuery db env (''DESCRIBE `'' @ t @ ''`'') database))"

section \<open>Backtick-quoted identifiers\<close>

text \<open>
  How the database server reads an identifier behind an opening backtick: up to the next
  single backtick, two backticks in a row standing for one backtick of the name. The
  result is the text read as the name, as written, and the text left behind the closing
  backtick.
\<close>

fun identifier_body :: "string \<Rightarrow> string \<Rightarrow> (string \<times> string) option" where
  "identifier_body acc [] = None"
| "identifier_body acc [c] = (if c = CHR ''`'' then Some (acc, []) else None)"
| "identifier_body acc (c # d # ds) =
     (if c = CHR ''`'' then
        (if d = CHR ''`'' then identifier_body (acc @ [c, d]) ds else Some (acc, d # ds))
      else identifier_body (acc @ [c]) (d # ds))"

fun quoted_identifier :: "string \<Rightarrow> (string \<times> string) option" where
  "quoted_identifier [] = None"
| "quoted_identifier (c # cs) = (if c = CHR ''`'' then identifier_body [] cs else None)"

section \<open>The pool registry of v1/db.js\<close>

record config =
  host :: string
  port :: nat
  user :: string
  password :: string
  database :: "string option"
  allow_insert :: bool
  allow_update :: bool
  allow_delete :: bool

text \<open>
  \<^verbatim>\<open>cfg.host.split(".").join("_")\<close> replaces every dot by an underscore; the template
  literal prints an undefined database as \<^verbatim>\<open>undefined\<close>.
\<close>

definition getPoolKey :: "config \<Rightarrow> string" where
  "getPoolKey cfg =
     (let strHost = map (\<lambda>c. if c = CHR ''.'' then CHR ''_'' else c) (host cfg) in
      strHost @ ''_'' @ user cfg @ ''_''
        @ (case database cfg of None \<Rightarrow> ''undefined'' | Some d \<Rightarrow> d))"

text \<open>
  The module state: the own properties of the registry \<^verbatim>\<open>pools\<close>, and the number of
  calls of \<^verbatim>\<open>mariadb.createPool\<close> so far. A pool instance is named by the number of the
  call that made it.
\<close>

record registry =
  pools :: "string \<rightharpoonup> nat"
  created :: nat

text \<open>
  \<^verbatim>\<open>pools\<close> is a JavaScript array, and \<^verbatim>\<open>pools[key]\<close> also finds the names that every
  array inherits. A key holds two underscores at least (\<open>getPoolKey_underscores\<close>
  below); the inherited names with two underscores are these five, and each of them is
  an object or a function, hence truthy.
\<close>

definition inherited_names :: "string list" where
  "inherited_names =
     [''__proto__'', ''__defineGetter__'', ''__defineSetter__'', ''__lookupGetter__'',
      ''__lookupSetter__'']"

datatype property = Pool nat | Inherited | Absent

definition pools_at :: "registry \<Rightarrow> string \<Rightarrow> property" where
  "pools_at reg key =
     (case pools reg key of
        Some p \<Rightarrow> Pool p
      | None \<Rightarrow> if key \<in> set inherited_names then Inherited else Absent)"

text \<open>
  How the head of \<^verbatim>\<open>executeQuery\<close> can fail: the \<^verbatim>\<open>Error\<close> thrown when the registry
  has nothing for the key, and the \<^verbatim>\<open>TypeError\<close> of calling \<^verbatim>\<open>getConnection\<close> on an
  inherited value, which has no such method.
\<close>

datatype pool_failure = NoPool string | NotAPool string

text \<open>
  The head of \<^verbatim>\<open>executeQuery\<close> in \<^verbatim>\<open>v1/db.js\<close>, with the configuration as a
  parameter: create the pool of the key if \<^verbatim>\<open>!pools[key]\<close>, throw if that still holds,
  and call \<^verbatim>\<open>getConnection\<close> on \<^verbatim>\<open>pools[key]\<close>.
\<close>

definition pool_for :: "config \<Rightarrow> registry \<Rightarrow> (pool_failure + nat) \<times> registry" where
  "pool_for cfg reg =
     (let key = getPoolKey cfg;
          reg' = (if pools_at reg key = Absent
                  then reg\<lparr>pools := (pools reg)(key \<mapsto> created reg), created := Suc (created reg)\<rparr>
                  else reg)
      in case pools_at reg' key of
           Absent \<Rightarrow> (Inl (NoPool key), reg')
         | Inherited \<Rightarrow> (Inl (NotAPool key), reg')
         | Pool p \<Rightarrow> (Inr p, reg'))"

text \<open>The registry after a sequence of calls, each for its own configuration.\<close>

definition after_calls :: "config list \<Rightarrow> registry \<Rightarrow> registry" where
  "after_calls cfgs reg = foldl (\<lambda>r cfg. snd (pool_for cfg r)) reg cfgs"

text \<open>
  The \<^verbatim>\<open>createConnectionPool\<close> that takes no argument, with its module-level \<^verbatim>\<open>pool\<close>.
  It calls \<^verbatim>\<open>getConfigFromEnv\<close> first, which throws when host, user or password is
  missing from the environment; then it returns the pool if there is one, and creates it
  otherwise.
\<close>

record environment =
  MARIADB_HOST :: "string option"
  MARIADB_USER :: "string option"
  MARIADB_PASSWORD :: "string option"

definition getConfigFromEnv_throws :: "environment \<Rightarrow> string option" where
  "getConfigFromEnv_throws e =
     (if given (MARIADB_HOST e) = None
        then Some ''MARIADB_HOST environment variable is required''
      else if given (MARIADB_USER e) = None
        then Some ''MARIADB_USER environment variable is required''
      else if given (MARIADB_PASSWORD e) = None
        then Some ''MARIADB_PASSWORD environment variable is required''
      else None)"

record pool_module =
  pool :: "nat option"
  pools_created :: nat

definition createConnectionPool ::
  "environment \<Rightarrow> pool_module \<Rightarrow> (string + nat) \<times> pool_module" where
  "createConnectionPool e m =
     (case getConfigFromEnv_throws e of
        Some msg \<Rightarrow> (Inl msg, m)
      | None \<Rightarrow>
          (case pool m of
             Some p \<Rightarrow> (Inr p, m)
           | None \<Rightarrow>
               (Inr (pools_created m),
                m\<lparr>pool := Some (pools_created m), pools_created := Suc (pools_created m)\<rparr>)))"

section \<open>Concrete inputs\<close>

definition all_off :: permissions where
  "all_off = \<lparr>ALLOW_INSERT = False, ALLOW_UPDATE = False, ALLOW_DELETE = False\<rparr>"

definition all_on :: permissions where
  "all_on = \<lparr>ALLOW_INSERT = True, ALLOW_UPDATE = True, ALLOW_DELETE = True\<rparr>"

text \<open>A driver that hands out a connection, accepts every USE and settles every query alike.\<close>

definition answering :: "nat reply \<Rightarrow> nat driver" where
  "answering r =
     \<lparr>getConnection_rejects = None, use_rejects = (\<lambda>_. None), query_reply = (\<lambda>_. r)\<rparr>"

definition local_cfg :: "string option \<Rightarrow> nat \<Rightarrow> config" where
  "local_cfg d n =
     \<lparr>host = ''db.local'', port = n, user = ''app'', password = ''pw'', database = d,
      allow_insert = False, allow_update = False, allow_delete = False\<rparr>"

definition no_pools :: registry where
  "no_pools = \<lparr>pools = Map.empty, created = 0\<rparr>"

text \<open>A configuration that the schema accepts and whose key is an inherited name.\<close>

definition proto_cfg :: config where
  "proto_cfg =
     \<lparr>host = ''_'', port = 3306, user = ''proto'', password = ''pw'', database = Some ''_'',
      allow_insert = False, allow_update = False, allow_delete = False\<rparr>"

section \<open>Properties of the validator\<close>

lemma regex_scan_here:
  assumes "at_boundary" and "space_or_end post"
  shows "regex_scan cmd at_boundary (cmd @ post)"
proof (cases "cmd @ post")
  case Nil
  with assms show ?thesis by simp
next
  case (Cons c cs)
  have "prefix cmd (cmd @ post)" and "drop (length cmd) (cmd @ post) = post"
    by simp_all
  with assms Cons show ?thesis
    by (metis regex_scan.simps(2))
qed

lemma regex_scan_later:
  assumes "pre \<noteq> []" and "is_space (last pre)" and "space_or_end post"
  shows "regex_scan cmd at_boundary (pre @ cmd @ post)"
  using assms
proof (induction pre arbitrary: at_boundary)
  case Nil
  then show ?case by simp
next
  case (Cons x xs)
  show ?case
  proof (cases "xs = []")
    case True
    with Cons.prems have "regex_scan cmd (is_space x) (cmd @ post)"
      by (simp add: regex_scan_here)
    with True show ?thesis by simp
  next
    case False
    with Cons.prems have "is_space (last xs)" by simp
    with False Cons.IH Cons.prems(3) have "regex_scan cmd (is_space x) (xs @ cmd @ post)"
      by blast
    then show ?thesis by simp
  qed
qed

lemma regex_test_between_spaces:
  assumes "s = pre @ cmd @ post"
    and "pre = [] \<or> is_space (last pre)"
    and "post = [] \<or> is_space (hd post)"
  shows "regex_test cmd s"
proof -
  from assms(3) have post: "space_or_end post"
    by (cases post) auto
  show ?thesis
  proof (cases "pre = []")
    case True
    with assms(1) post show ?thesis
      by (simp add: regex_test_def regex_scan_here)
  next
    case False
    with assms(1,2) post show ?thesis
      by (simp add: regex_test_def regex_scan_later)
  qed
qed

text \<open>
  The scan finds exactly the occurrences of the command that have whitespace, or the start
  or end of the text, on both sides.
\<close>

lemma regex_scan_occurrence:
  assumes "regex_scan cmd at_boundary s"
  shows "\<exists>pre post. s = pre @ cmd @ post
           \<and> (if pre = [] then at_boundary else is_space (last pre))
           \<and> space_or_end post"
  using assms
proof (induction s arbitrary: at_boundary)
  case Nil
  then have "[] = [] @ cmd @ [] \<and> at_boundary \<and> space_or_end []"
    by simp
  then show ?case
    by (metis (full_types))
next
  case (Cons c cs)
  show ?case
  proof (cases "at_boundary \<and> prefix cmd (c # cs) \<and> space_or_end (drop (length cmd) (c # cs))")
    case True
    then obtain post where post: "c # cs = cmd @ post"
      by (auto simp: prefix_def)
    with True have "space_or_end post" by simp
    with True post have "c # cs = [] @ cmd @ post
        \<and> (if ([]::string) = [] then at_boundary else is_space (last []))
        \<and> space_or_end post"
      by simp
    then show ?thesis by blast
  next
    case False
    with Cons.prems have "regex_scan cmd (is_space c) cs"
      by auto
    then obtain pre post where rest: "cs = pre @ cmd @ post"
      and before: "if pre = [] then is_space c else is_space (last pre)"
      and behind: "space_or_end post"
      using Cons.IH by blast
    from rest have "c # cs = (c # pre) @ cmd @ post"
      by simp
    moreover from before have "is_space (last (c # pre))"
      by (simp split: if_splits)
    ultimately have "c # cs = (c # pre) @ cmd @ post
        \<and> (if c # pre = [] then at_boundary else is_space (last (c # pre)))
        \<and> space_or_end post"
      using behind by simp
    then show ?thesis by blast
  qed
qed

lemma regex_test_iff:
  "regex_test cmd s \<longleftrightarrow>
     (\<exists>pre post. s = pre @ cmd @ post
        \<and> (pre = [] \<or> is_space (last pre)) \<and> (post = [] \<or> is_space (hd post)))"
proof
  assume "regex_test cmd s"
  then obtain pre post where "s = pre @ cmd @ post"
    and "if pre = [] then True else is_space (last pre)" and "space_or_end post"
    unfolding regex_test_def using regex_scan_occurrence by blast
  moreover from this have "pre = [] \<or> is_space (last pre)" and "post = [] \<or> is_space (hd post)"
    by (auto split: if_splits) (cases post; simp)+
  ultimately show "\<exists>pre post. s = pre @ cmd @ post
        \<and> (pre = [] \<or> is_space (last pre)) \<and> (post = [] \<or> is_space (hd post))"
    by blast
next
  assume "\<exists>pre post. s = pre @ cmd @ post
        \<and> (pre = [] \<or> is_space (last pre)) \<and> (post = [] \<or> is_space (hd post))"
  then show "regex_test cmd s"
    using regex_test_between_spaces by blast
qed

lemma disallowed_hit_on_deny_list:
  assumes "cmd \<in> set DISALLOWED_COMMANDS"
  shows "disallowed_hit env s cmd = regex_test cmd s"
  using assms by (auto simp: DISALLOWED_COMMANDS_def disallowed_hit_def)

lemma containsDisallowed_flags_ignored:
  "containsDisallowed env s = containsDisallowed env' s"
  by (simp add: containsDisallowed_def list_ex_iff disallowed_hit_on_deny_list)

lemma isAlloowedQuery_flags_ignored:
  "isAlloowedQuery env query = isAlloowedQuery env' query"
  unfolding isAlloowedQuery_def Let_def
  using containsDisallowed_flags_ignored [of env _ env'] by simp

text \<open>
  C1 (as amended). Whenever the normalised text contains a command of the deny-list with
  whitespace, or the start or end of the text, on each side, \<open>isAlloowedQuery\<close> returns
  false, whatever the leading verb and whatever the flags.
\<close>

theorem deny_list_verb_between_spaces_is_denied:
  assumes "cmd \<in> set DISALLOWED_COMMANDS"
    and "normalize query = pre @ cmd @ post"
    and "pre = [] \<or> is_space (last pre)"
    and "post = [] \<or> is_space (hd post)"
  shows "\<not> isAlloowedQuery env query"
proof -
  from assms(2-4) have "regex_test cmd (normalize query)"
    by (rule regex_test_between_spaces)
  with assms(1) have "disallowed_hit env (normalize query) cmd"
    by (simp add: disallowed_hit_on_deny_list)
  with assms(1) have "containsDisallowed env (normalize query)"
    unfolding containsDisallowed_def list_ex_iff by blast
  then show ?thesis
    by (simp add: isAlloowedQuery_def)
qed

text \<open>
  C1, at the example of the claim: \<^verbatim>\<open>SHOW TABLES; SET autocommit=0\<close> starts with an
  allowed verb and is denied, by the SET between two spaces.
\<close>

theorem deny_list_verb_between_spaces_is_denied_witness:
  "''SET'' \<in> set DISALLOWED_COMMANDS
   \<and> normalize ''SHOW TABLES; SET autocommit=0'' = ''SHOW TABLES; '' @ ''SET'' @ '' AUTOCOMMIT=0''
   \<and> is_space (last ''SHOW TABLES; '') \<and> is_space (hd '' AUTOCOMMIT=0'')
   \<and> startsWithAllowed (normalize ''SHOW TABLES; SET autocommit=0'')
   \<and> \<not> isAlloowedQuery all_off ''SHOW TABLES; SET autocommit=0''"
proof -
  have verb: "''SET'' \<in> set DISALLOWED_COMMANDS"
    by (simp add: DISALLOWED_COMMANDS_def)
  have split: "normalize ''SHOW TABLES; SET autocommit=0''
              = ''SHOW TABLES; '' @ ''SET'' @ '' AUTOCOMMIT=0''"
    by code_simp
  have before: "''SHOW TABLES; '' = [] \<or> is_space (last ''SHOW TABLES; '')"
    by (simp add: is_space_def)
  have behind: "'' AUTOCOMMIT=0'' = [] \<or> is_space (hd '' AUTOCOMMIT=0'')"
    by (simp add: is_space_def)
  have leading: "startsWithAllowed (normalize ''SHOW TABLES; SET autocommit=0'')"
    by code_simp
  from deny_list_verb_between_spaces_is_denied [OF verb split before behind] verb split leading
  show ?thesis
    by (simp add: is_space_def)
qed

text \<open>
  C1 (as stated) fails: in \<^verbatim>\<open>SELECT REPLACE(a, b, c) FROM t\<close> the deny-list verb REPLACE
  is a whole word, with a space before it and a parenthesis behind it, and the query is
  allowed, since \<^verbatim>\<open>(\s|$)\<close> does not match the parenthesis.
\<close>

theorem whole_word_replace_is_allowed:
  "''REPLACE'' \<in> set DISALLOWED_COMMANDS
   \<and> spec_whole_word ''REPLACE'' (normalize ''SELECT REPLACE(a, b, c) FROM t'')
   \<and> isAlloowedQuery all_off ''SELECT REPLACE(a, b, c) FROM t''"
proof -
  have "''REPLACE'' \<in> set DISALLOWED_COMMANDS"
    by (simp add: DISALLOWED_COMMANDS_def)
  moreover have "spec_whole_word ''REPLACE'' (normalize ''SELECT REPLACE(a, b, c) FROM t'')"
    by code_simp
  moreover have "isAlloowedQuery all_off ''SELECT REPLACE(a, b, c) FROM t''"
    by code_simp
  ultimately show ?thesis by blast
qed

text \<open>
  C2. With all three flags off, an INSERT and a DELETE are allowed: the flags are read but
  never change the outcome (\<open>isAlloowedQuery_flags_ignored\<close>). With all three flags on,
  an UPDATE is denied, by the SET it contains.
\<close>

theorem insert_delete_allowed_with_flags_off:
  "isAlloowedQuery all_off ''INSERT INTO t VALUES (1)''
   \<and> isAlloowedQuery all_off ''DELETE FROM t WHERE id = 1''
   \<and> \<not> isAlloowedQuery all_on ''UPDATE t SET a = 1''"
proof -
  have "isAlloowedQuery all_off ''INSERT INTO t VALUES (1)''"
    by code_simp
  moreover have "isAlloowedQuery all_off ''DELETE FROM t WHERE id = 1''"
    by code_simp
  moreover have "\<not> isAlloowedQuery all_on ''UPDATE t SET a = 1''"
    by code_simp
  ultimately show ?thesis by blast
qed

text \<open>
  C3. The normalised text \<^verbatim>\<open>SELECT 1; SELECT 2;\<close> has a semicolon at index 8, which is
  not its last character, and the query is allowed: \<open>hasMultipleStatements\<close> only asks
  whether the text ends with a semicolon. So is \<^verbatim>\<open>SELECT 1;DROP TABLE x;\<close>, whose DROP
  has no whitespace before it. The two examples of the claim hold.
\<close>

theorem two_statements_with_trailing_semicolon_allowed:
  "normalize ''SELECT 1; SELECT 2;'' ! 8 = CHR '';''
   \<and> 8 < length (normalize ''SELECT 1; SELECT 2;'') - 1
   \<and> isAlloowedQuery all_off ''SELECT 1; SELECT 2;''
   \<and> isAlloowedQuery all_off ''SELECT 1;DROP TABLE x;''
   \<and> \<not> isAlloowedQuery all_off ''SELECT 1; DROP TABLE x''
   \<and> isAlloowedQuery all_off ''SELECT 1;''"
proof -
  have n: "normalize ''SELECT 1; SELECT 2;'' = ''SELECT 1; SELECT 2;''"
    by code_simp
  have "isAlloowedQuery all_off ''SELECT 1; SELECT 2;''"
    by code_simp
  moreover have "isAlloowedQuery all_off ''SELECT 1;DROP TABLE x;''"
    by code_simp
  moreover have "\<not> isAlloowedQuery all_off ''SELECT 1; DROP TABLE x''"
    by code_simp
  moreover have "isAlloowedQuery all_off ''SELECT 1;''"
    by code_simp
  ultimately show ?thesis
    by (simp add: n)
qed

text \<open>The function \<^verbatim>\<open>isAllowedQuery\<close> of \<^verbatim>\<open>src/validators.ts\<close> allows every query.\<close>

lemma isAllowedQuery_always: "isAllowedQuery env query"
  by (simp add: isAllowedQuery_def)

section \<open>Properties of the executor\<close>

lemma drop_table_denied: "\<not> isAlloowedQuery env ''DROP TABLE x''"
proof -
  have "\<not> isAlloowedQuery all_off ''DROP TABLE x''"
    by code_simp
  then show ?thesis
    using isAlloowedQuery_flags_ignored by blast
qed

lemma select_1_allowed: "isAlloowedQuery env ''SELECT 1''"
proof -
  have "isAlloowedQuery all_off ''SELECT 1''"
    by code_simp
  then show ?thesis
    using isAlloowedQuery_flags_ignored by blast
qed

lemma try_block_never_releases:
  "count_list (snd (try_block db env sql dbname)) Release = 0"
  by (auto simp: try_block_def Let_def
      split: option.splits reply.splits prod.splits if_splits)

text \<open>
  C4. Once \<^verbatim>\<open>getConnection\<close> has succeeded, a call that ends in an error releases the
  connection twice, in the \<^verbatim>\<open>catch\<close> block and again in the \<^verbatim>\<open>finally\<close> block; only
  a call that returns a result releases it once.
\<close>

theorem releases_after_acquisition:
  assumes "getConnection_rejects db = None"
  shows "count_list (snd (executeQuery db env sql dbname)) Release
         = (if isl (fst (executeQuery db env sql dbname)) then 2 else 1)"
proof (cases "try_block db env sql dbname")
  case (Pair r calls)
  then have "count_list calls Release = 0"
    using try_block_never_releases [of db env sql dbname] by simp
  with Pair assms show ?thesis
    by (cases r) (simp_all add: executeQuery_def)
qed

text \<open>C4, at a query that the validator denies: two releases for one acquisition.\<close>

theorem releases_after_acquisition_witness:
  "getConnection_rejects (answering Pending) = None
   \<and> executeQuery (answering Pending) all_off ''DROP TABLE x'' None
       = (Inl (Error ''Query not allowed''), [Release, Release])
   \<and> count_list (snd (executeQuery (answering Pending) all_off ''DROP TABLE x'' None)) Release
       = 2"
proof -
  have a: "getConnection_rejects (answering Pending) = None"
    by (simp add: answering_def)
  have b: "executeQuery (answering Pending) all_off ''DROP TABLE x'' None
       = (Inl (Error ''Query not allowed''), [Release, Release])"
    by (simp add: executeQuery_def try_block_def answering_def drop_table_denied)
  from releases_after_acquisition [OF a, of all_off "''DROP TABLE x''" None] a b
  show ?thesis by simp
qed

text \<open>
  C5 (as stated) fails: a query that is still pending when the timer fires ends in the
  error \<^verbatim>\<open>Query timeout\<close>, and the connection is released to the pool.
\<close>

theorem timeout_releases_connection:
  "fst (executeQuery (answering Pending) all_off ''SELECT 1'' None)
     = Inl (Error ''Query timeout'')
   \<and> snd (executeQuery (answering Pending) all_off ''SELECT 1'' None)
       = [Query ''SELECT 1'', Release, Release]"
  by (simp add: executeQuery_def try_block_def answering_def select_1_allowed)

text \<open>
  C5 (as amended). When the connection is obtained, the switch of database (if any) is
  accepted, the validator allows the statement and the query does not settle in time,
  \<open>executeQuery\<close> throws \<^verbatim>\<open>Query timeout\<close> and releases the connection to the pool.
\<close>

theorem timeout_error_and_release:
  assumes "getConnection_rejects db = None"
    and "\<forall>d. given dbname = Some d \<longrightarrow> use_rejects db (use_statement d) = None"
    and "isAlloowedQuery env sql"
    and "query_reply db sql = Pending"
  shows "fst (executeQuery db env sql dbname) = Inl (Error ''Query timeout'')
         \<and> Release \<in> set (snd (executeQuery db env sql dbname))"
  using assms
  by (cases "given dbname") (simp_all add: executeQuery_def try_block_def Let_def)

text \<open>C5, at a query that stays pending after a switch to the database \<^verbatim>\<open>shop\<close>.\<close>

theorem timeout_error_and_release_witness:
  "getConnection_rejects (answering Pending) = None
   \<and> given (Some ''shop'') = Some ''shop''
   \<and> use_rejects (answering Pending) (use_statement ''shop'') = None
   \<and> isAlloowedQuery all_off ''SELECT 1''
   \<and> query_reply (answering Pending) ''SELECT 1'' = Pending
   \<and> fst (executeQuery (answering Pending) all_off ''SELECT 1'' (Some ''shop''))
       = Inl (Error ''Query timeout'')
   \<and> Release \<in> set (snd (executeQuery (answering Pending) all_off ''SELECT 1'' (Some ''shop'')))"
proof -
  have a: "getConnection_rejects (answering Pending) = None"
    by (simp add: answering_def)
  have b: "\<forall>d. given (Some ''shop'') = Some d \<longrightarrow>
      use_rejects (answering Pending) (use_statement d) = None"
    by (simp add: answering_def)
  have c: "isAlloowedQuery all_off ''SELECT 1''"
    by (rule select_1_allowed)
  have d: "query_reply (answering Pending) ''SELECT 1'' = Pending"
    by (simp add: answering_def)
  from timeout_error_and_release [OF a b c d] a c d
  show ?thesis by (simp add: answering_def)
qed








section \<open>Properties of the pool registry\<close>

lemma getPoolKey_same:
  assumes "host c2 = host c1" and "user c2 = user c1" and "database c2 = database c1"
  shows "getPoolKey c2 = getPoolKey c1"
  using assms by (simp add: getPoolKey_def)

lemma getPoolKey_underscores: "2 \<le> count_list (getPoolKey cfg) CHR ''_''"
  by (simp add: getPoolKey_def)

lemma pool_for_existing:
  assumes "pools reg (getPoolKey cfg) = Some p"
  shows "pool_for cfg reg = (Inr p, reg)"
  using assms by (simp add: pool_for_def pools_at_def)

lemma pool_for_absent:
  assumes "pools reg (getPoolKey cfg) = None" and "getPoolKey cfg \<notin> set inherited_names"
  shows "pool_for cfg reg =
    (Inr (created reg),
     reg\<lparr>pools := (pools reg)(getPoolKey cfg \<mapsto> created reg), created := Suc (created reg)\<rparr>)"
  using assms by (simp add: pool_for_def pools_at_def Let_def)

lemma pool_for_inherited:
  assumes "pools reg (getPoolKey cfg) = None" and "getPoolKey cfg \<in> set inherited_names"
  shows "pool_for cfg reg = (Inl (NotAPool (getPoolKey cfg)), reg)"
  using assms by (simp add: pool_for_def pools_at_def Let_def)

lemma pool_for_keeps:
  assumes "pools reg k = Some p"
  shows "pools (snd (pool_for cfg reg)) k = Some p"
proof (cases "pools reg (getPoolKey cfg)")
  case None
  with assms have other: "k \<noteq> getPoolKey cfg" by auto
  show ?thesis
  proof (cases "getPoolKey cfg \<in> set inherited_names")
    case True
    with None assms show ?thesis
      by (simp add: pool_for_inherited)
  next
    case False
    with None other assms show ?thesis
      by (simp add: pool_for_absent)
  qed
next
  case (Some q)
  with assms show ?thesis
    by (simp add: pool_for_existing)
qed

lemma after_calls_keeps:
  assumes "pools reg k = Some p"
  shows "pools (after_calls cfgs reg) k = Some p"
  using assms
proof (induction cfgs arbitrary: reg)
  case Nil
  then show ?case by (simp add: after_calls_def)
next
  case (Cons cfg cfgs)
  from Cons.prems have "pools (snd (pool_for cfg reg)) k = Some p"
    by (rule pool_for_keeps)
  then have "pools (after_calls cfgs (snd (pool_for cfg reg))) k = Some p"
    by (rule Cons.IH)
  then show ?case by (simp add: after_calls_def)
qed

text \<open>
  Where the key is not an inherited name the registry does what is asked of it. Let a
  first call, for configuration \<open>c1\<close>, obtain its pool, and let any calls follow. A call
  for a configuration \<open>c2\<close> with the same host, user and default database then obtains
  the same pool and leaves the registry as it is: no pool is created. The first call
  creates a pool only if the registry had none for the key.
\<close>

lemma same_configuration_same_pool:
  assumes "host c2 = host c1" and "user c2 = user c1" and "database c2 = database c1"
    and "getPoolKey c1 \<notin> set inherited_names"
    and "pool_for c1 reg = (r, reg1)"
  shows "\<exists>p. r = Inr p
           \<and> pool_for c2 (after_calls cfgs reg1) = (Inr p, after_calls cfgs reg1)
           \<and> (pools reg (getPoolKey c1) = None \<longrightarrow>
                p = created reg \<and> created reg1 = Suc (created reg))
           \<and> (pools reg (getPoolKey c1) \<noteq> None \<longrightarrow> reg1 = reg)"
proof -
  from assms(1-3) have key: "getPoolKey c2 = getPoolKey c1"
    by (rule getPoolKey_same)
  have again: "pool_for c2 (after_calls cfgs reg1) = (Inr p, after_calls cfgs reg1)"
    if "pools reg1 (getPoolKey c1) = Some p" for p
  proof -
    from that have "pools (after_calls cfgs reg1) (getPoolKey c1) = Some p"
      by (rule after_calls_keeps)
    with key show ?thesis
      by (simp add: pool_for_existing)
  qed
  show ?thesis
  proof (cases "pools reg (getPoolKey c1)")
    case None
    with assms(4,5) have r: "r = Inr (created reg)"
      and reg1: "reg1 = reg\<lparr>pools := (pools reg)(getPoolKey c1 \<mapsto> created reg),
                             created := Suc (created reg)\<rparr>"
      by (simp_all add: pool_for_absent)
    from reg1 have "pools reg1 (getPoolKey c1) = Some (created reg)" by simp
    then have "pool_for c2 (after_calls cfgs reg1) = (Inr (created reg), after_calls cfgs reg1)"
      by (rule again)
    with None r reg1 show ?thesis by simp
  next
    case (Some q)
    with assms(5) have r: "r = Inr q" and reg1: "reg1 = reg"
      by (simp_all add: pool_for_existing)
    from Some reg1 have "pools reg1 (getPoolKey c1) = Some q" by simp
    then have "pool_for c2 (after_calls cfgs reg1) = (Inr q, after_calls cfgs reg1)"
      by (rule again)
    with Some r reg1 show ?thesis by simp
  qed
qed

text \<open>
  C7. For the configuration with host \<^verbatim>\<open>_\<close>, user \<^verbatim>\<open>proto\<close> and database \<^verbatim>\<open>_\<close>, none of
  them empty, the key is \<^verbatim>\<open>__proto__\<close>. On the empty registry \<^verbatim>\<open>pools[key]\<close> finds the
  inherited value: no pool is created, the call fails with the type error, and the
  registry is left as it was, so that every later call meets the same.
\<close>

theorem inherited_key_creates_no_pool:
  "host proto_cfg \<noteq> [] \<and> user proto_cfg \<noteq> [] \<and> password proto_cfg \<noteq> []
   \<and> getPoolKey proto_cfg = ''__proto__''
   \<and> pool_for proto_cfg no_pools = (Inl (NotAPool ''__proto__''), no_pools)
   \<and> created (snd (pool_for proto_cfg no_pools)) = 0"
proof -
  have key: "getPoolKey proto_cfg = ''__proto__''"
    by (simp add: getPoolKey_def proto_cfg_def)
  have "pools no_pools (getPoolKey proto_cfg) = None"
    by (simp add: no_pools_def)
  moreover have "getPoolKey proto_cfg \<in> set inherited_names"
    unfolding key by (simp add: inherited_names_def)
  ultimately have "pool_for proto_cfg no_pools = (Inl (NotAPool (getPoolKey proto_cfg)), no_pools)"
    by (rule pool_for_inherited)
  with key have run: "pool_for proto_cfg no_pools = (Inl (NotAPool ''__proto__''), no_pools)"
    by simp
  have "created no_pools = 0"
    by (simp add: no_pools_def)
  with run key show ?thesis
    by (simp add: proto_cfg_def)
qed

text \<open>
  The module-level pool: once a call has returned a pool, the next call in the same
  environment returns that pool and creates none.
\<close>

lemma createConnectionPool_idempotent:
  assumes "createConnectionPool e m = (Inr p, m1)"
  shows "createConnectionPool e m1 = (Inr p, m1)"
proof (cases "getConfigFromEnv_throws e")
  case None
  show ?thesis
  proof (cases "pool m")
    case no_pool: None
    with None assms show ?thesis
      by (auto simp: createConnectionPool_def)
  next
    case (Some q)
    with None assms show ?thesis
      by (auto simp: createConnectionPool_def)
  qed
next
  case (Some msg)
  with assms show ?thesis
    by (simp add: createConnectionPool_def)
qed

section \<open>Properties of the tool handlers\<close>

lemma show_full_tables_allowed: "isAlloowedQuery env ''SHOW FULL TABLES''"
proof -
  have "isAlloowedQuery all_off ''SHOW FULL TABLES''"
    by code_simp
  then show ?thesis
    using isAlloowedQuery_flags_ignored by blast
qed

lemma describe_a_b_allowed: "isAlloowedQuery env ''DESCRIBE `a` `b`''"
proof -
  have "isAlloowedQuery all_off ''DESCRIBE `a` `b`''"
    by code_simp
  then show ?thesis
    using isAlloowedQuery_flags_ignored by blast
qed

lemma describe_drop_allowed: "isAlloowedQuery env ''DESCRIBE `t`;DROP TABLE x;-- `''"
proof -
  have "isAlloowedQuery all_off ''DESCRIBE `t`;DROP TABLE x;-- `''"
    by code_simp
  then show ?thesis
    using isAlloowedQuery_flags_ignored by blast
qed

lemma identifier_body_plain:
  assumes "CHR ''`'' \<notin> set t"
  shows "identifier_body acc (t @ ''`'') = Some (acc @ t, [])"
  using assms
proof (induction t arbitrary: acc)
  case Nil
  then show ?case by simp
next
  case (Cons x xs)
  then have x: "x \<noteq> CHR ''`''" and xs: "CHR ''`'' \<notin> set xs"
    by auto
  obtain d ds where split: "xs @ ''`'' = d # ds"
    by (cases "xs @ ''`''") auto
  from x split have "identifier_body acc ((x # xs) @ ''`'')
      = identifier_body (acc @ [x]) (xs @ ''`'')"
    by simp
  also from xs have "\<dots> = Some ((acc @ [x]) @ xs, [])"
    by (rule Cons.IH)
  finally show ?case by simp
qed

text \<open>
  C8. Called without a database, \<open>list_tables\<close> never answers with the missing-parameter
  error, and whenever the pool hands out a connection the first call on it is the
  statement \<^verbatim>\<open>SHOW FULL TABLES\<close>.
\<close>

theorem list_tables_without_database:
  "fst (list_tables db env None) \<noteq> IsError (InvalidParams m)
   \<and> (getConnection_rejects db = None \<longrightarrow>
        (\<exists>rest. snd (list_tables db env None) = Query ''SHOW FULL TABLES'' # rest))"
  by (auto simp: list_tables_def respond_def executeQuery_def try_block_def
      show_full_tables_allowed split: option.splits reply.splits prod.splits)

text \<open>
  C8, at a server that answers \<^verbatim>\<open>No database selected\<close>: the statement is sent, and the
  caller sees the server's error.
\<close>

theorem list_tables_without_database_witness:
  "getConnection_rejects (answering (Rejects ''No database selected'')) = None
   \<and> list_tables (answering (Rejects ''No database selected'')) all_off None
       = (IsError (Error ''No database selected''),
          [Query ''SHOW FULL TABLES'', Release, Release])"
proof -
  have a: "getConnection_rejects (answering (Rejects ''No database selected'')) = None"
    by (simp add: answering_def)
  have b: "list_tables (answering (Rejects ''No database selected'')) all_off None
       = (IsError (Error ''No database selected''),
          [Query ''SHOW FULL TABLES'', Release, Release])"
    by (simp add: list_tables_def respond_def executeQuery_def try_block_def answering_def
        show_full_tables_allowed)
  from list_tables_without_database [of "answering (Rejects ''No database selected'')" all_off]
    a b
  show ?thesis by simp
qed

text \<open>
  Whatever the table name holds, backticks included, \<open>describe_table\<close> sends it as it
  is between two backticks, once the connection is obtained, the switch of database (if
  any) is accepted and the validator allows the statement.
\<close>

lemma describe_table_sends_name_verbatim:
  assumes "t \<noteq> []" and "getConnection_rejects db = None"
    and "\<forall>d. given dbname = Some d \<longrightarrow> use_rejects db (use_statement d) = None"
    and "isAlloowedQuery env (''DESCRIBE `'' @ t @ ''`'')"
  shows "Query (''DESCRIBE `'' @ t @ ''`'') \<in> set (snd (describe_table db env dbname (Some t)))"
proof -
  from assms(2-4)
  have "Query (''DESCRIBE `'' @ t @ ''`'')
      \<in> set (snd (executeQuery db env (''DESCRIBE `'' @ t @ ''`'') dbname))"
    by (cases "given dbname")
      (auto simp: executeQuery_def try_block_def Let_def
        split: option.splits reply.splits prod.splits)
  with assms(1) show ?thesis
    by (auto simp: describe_table_def respond_def split: prod.splits sum.splits)
qed

text \<open>A name without a backtick is read back as the whole identifier.\<close>

lemma plain_name_stays_quoted:
  assumes "CHR ''`'' \<notin> set t"
  shows "quoted_identifier (drop (length ''DESCRIBE '') (''DESCRIBE `'' @ t @ ''`'')) = Some (t, [])"
  using assms identifier_body_plain [of t "[]"] by simp

text \<open>
  C9. For the table name \<^verbatim>\<open>t`;DROP TABLE x;-- \<close> the validator allows the statement
  and \<open>describe_table\<close> sends \<^verbatim>\<open>DESCRIBE `t`;DROP TABLE x;-- `\<close>: the identifier ends
  behind \<^verbatim>\<open>t\<close>, and what follows in the name is read as further SQL. Likewise for the
  name \<^verbatim>\<open>a` `b\<close>, whose second half is read as a column name.
\<close>

theorem describe_table_backtick_leaves_identifier:
  "snd (describe_table (answering (Resolves (row_set []))) all_off None
          (Some ''t`;DROP TABLE x;-- ''))
     = [Query ''DESCRIBE `t`;DROP TABLE x;-- `'', Release]
   \<and> quoted_identifier (drop (length ''DESCRIBE '') ''DESCRIBE `t`;DROP TABLE x;-- `'')
       = Some (''t'', '';DROP TABLE x;-- `'')
   \<and> snd (describe_table (answering (Resolves (row_set []))) all_off None (Some ''a` `b''))
       = [Query ''DESCRIBE `a` `b`'', Release]
   \<and> quoted_identifier (drop (length ''DESCRIBE '') ''DESCRIBE `a` `b`'')
       = Some (''a'', '' `b`'')"
  by (simp add: describe_table_def respond_def executeQuery_def try_block_def answering_def
      row_set_def describe_a_b_allowed describe_drop_allowed)

text \<open>
  C10. Whenever \<open>executeQuery\<close> is given a database name and obtains a connection, the
  first statement on the connection is \<^verbatim>\<open>USE\<close> followed by the name between backticks,
  the name inserted as it is. For the name \<^verbatim>\<open>a` b\<close>, which contains a backtick, the
  identifier of that statement ends behind \<^verbatim>\<open>a\<close>.
\<close>

theorem use_statement_is_unescaped:
  "(dbname \<noteq> [] \<and> getConnection_rejects db = None \<longrightarrow>
      (\<exists>rest. snd (executeQuery db env sql (Some dbname))
               = Query (''USE `'' @ dbname @ ''`'') # rest))
   \<and> CHR ''`'' \<in> set ''a` b''
   \<and> quoted_identifier (drop (length ''USE '') (''USE `'' @ ''a` b'' @ ''`''))
       = Some (''a'', '' b`'')"
  by (auto simp: executeQuery_def try_block_def Let_def use_statement_def
      split: option.splits reply.splits prod.splits)

text \<open>C10, at the database name \<^verbatim>\<open>a` b\<close>: the statement sent is \<^verbatim>\<open>USE `a` b`\<close>.\<close>

theorem use_statement_is_unescaped_witness:
  "''a` b'' \<noteq> [] \<and> getConnection_rejects (answering (Resolves (row_set []))) = None
   \<and> snd (executeQuery (answering (Resolves (row_set []))) all_off ''SELECT 1''
            (Some ''a` b''))
       = [Query ''USE `a` b`'', Query ''SELECT 1'', Release]"
proof -
  let ?db = "answering (Resolves (row_set []))"
  have a: "''a` b'' \<noteq> [] \<and> getConnection_rejects ?db = None"
    by (simp add: answering_def)
  have b: "snd (executeQuery ?db all_off ''SELECT 1'' (Some ''a` b''))
       = [Query ''USE `a` b`'', Query ''SELECT 1'', Release]"
    by (simp add: executeQuery_def try_block_def answering_def use_statement_def
        row_set_def select_1_allowed)
  from use_statement_is_unescaped [of "''a` b''" ?db all_off "''SELECT 1''"] a b
  show ?thesis by simp
qed

end
